theory Spec2Isabelle
  imports Main "HOL-Library.Word" "HOL-Library.Sublist"
begin

section \<open>AutoDeploy agent: the state and handlers of \<open>src/src/App.tsx\<close>\<close>

text \<open>
  The component \<open>App\<close> keeps four pieces of React state (\<open>input\<close>, \<open>isProcessing\<close>,
  \<open>messages\<close>, \<open>steps\<close>).  Its handlers are closures made by a render: they read the
  constants \<open>input\<close> and \<open>isProcessing\<close> of that render, and the setters they call do not
  change anything at once but queue an update, which the next render applies.  The
  handlers are the text field's \<open>onChange\<close>, \<open>handleSend\<close> (button click or Enter key), and
  the continuation of the asynchronous \<open>simulateAgentProcess\<close>, which a timer resumes
  after each \<open>await delay(ms)\<close>.  The model keeps the values of the last render, the
  queue of updates not yet applied and the parked continuations in one record; a render
  is an event of its own.
\<close>

subsection \<open>Strings\<close>

text \<open>
  A JavaScript string is a sequence of UTF-16 code units.  The literals of the source are
  ASCII and are written with \<open>js\<close>.
\<close>

type_synonym jsstring = "16 word list"

definition js :: "string \<Rightarrow> jsstring" where
  "js s = map (\<lambda>c. of_nat (of_char c)) s"

text \<open>
  \<open>String.prototype.trim\<close> removes leading and trailing white space and line terminators:
  TAB, LF, VT, FF, CR, SPACE, NBSP, U+1680, U+2000 to U+200A, U+2028, U+2029, U+202F,
  U+205F, U+3000 and U+FEFF.
\<close>

definition isWhiteSpace :: "16 word \<Rightarrow> bool" where
  "isWhiteSpace c =
     (c = 0x0009 \<or> c = 0x000A \<or> c = 0x000B \<or> c = 0x000C \<or> c = 0x000D \<or> c = 0x0020 \<or>
      c = 0x00A0 \<or> c = 0x1680 \<or> (0x2000 \<le> c \<and> c \<le> 0x200A) \<or> c = 0x2028 \<or> c = 0x2029 \<or>
      c = 0x202F \<or> c = 0x205F \<or> c = 0x3000 \<or> c = 0xFEFF)"

definition trim :: "jsstring \<Rightarrow> jsstring" where
  "trim s = rev (dropWhile isWhiteSpace (rev (dropWhile isWhiteSpace s)))"

text \<open>\<open>Date.now().toString()\<close>: the decimal digits of an integer, with a sign when negative.\<close>

function digits :: "nat \<Rightarrow> jsstring" where
  "digits n = (if n < 10 then [of_nat (48 + n)] else digits (n div 10) @ [of_nat (48 + n mod 10)])"
  by pat_completeness auto
termination
  by (relation "measure (\<lambda>n. n)") auto

declare digits.simps [simp del]

definition toString :: "int \<Rightarrow> jsstring" where
  "toString n = (if n < 0 then js ''-'' @ digits (nat (- n)) else digits (nat n))"

subsection \<open>Types (lines 24 to 36)\<close>

datatype role = User | Agent | System

datatype msg_type = Text | Code | Status

datatype status = Pending | Active | Completed | Failed

text \<open>
  \<open>timestamp\<close> is a \<open>Date\<close>, kept as its milliseconds since the epoch; \<open>type\<close> is optional.
  The fields \<open>id\<close> and \<open>type\<close> of \<open>Message\<close> are \<open>msg_id\<close> and \<open>msg_type\<close> here, the field
  \<open>id\<close> of \<open>Step\<close> is \<open>step_id\<close>.
\<close>

record message =
  msg_id :: jsstring
  role :: role
  content :: jsstring
  timestamp :: int
  msg_type :: "msg_type option"

record step =
  step_id :: jsstring
  label :: jsstring
  status :: status

subsection \<open>Updates and statements\<close>

text \<open>
  An \<open>update\<close> is what a setter queues: \<open>Append m\<close> is line 78's
  \<open>setMessages(prev => [...prev, userMsg])\<close> for the \<open>userMsg\<close> already built, \<open>ResetSteps\<close>
  is line 88, \<open>UpdateStep\<close> is the \<open>setSteps\<close> of line 119 and \<open>AddMessage\<close> the
  \<open>setMessages\<close> of line 123, whose updater builds the Entry when it is run.  A
  statement of an asynchronous body either queues an update or is \<open>await delay(ms)\<close>.
\<close>

datatype update =
    Append message
  | SetInput jsstring
  | SetIsProcessing bool
  | ResetSteps
  | UpdateStep jsstring status
  | AddMessage role jsstring "msg_type option"

datatype stmt = Do update | Delay nat

subsection \<open>State\<close>

text \<open>
  The first four fields are the values of the component's \<open>useState\<close> cells at the last
  render, which is what the handlers of that render see.  \<open>pending\<close> is the queue of
  updates called since, in the order of the calls.  \<open>suspended\<close> holds the rest of every
  asynchronous body that waits for its timer.  \<open>clock\<close> gives the value of the system
  clock at its n-th reading and \<open>reads\<close> counts the readings made so far; nothing is
  assumed about the clock, in particular two readings may return the same millisecond.
\<close>

record world =
  input :: jsstring
  isProcessing :: bool
  messages :: "message list"
  steps :: "step list"
  pending :: "update list"
  suspended :: "stmt list list"
  clock :: "nat \<Rightarrow> int"
  reads :: nat

text \<open>The initial values of lines 39 to 55; the initial message reads the clock once.\<close>

definition init :: "(nat \<Rightarrow> int) \<Rightarrow> world" where
  "init clk =
     \<lparr> input = [],
       isProcessing = False,
       messages =
         [\<lparr> msg_id = js ''1'', role = System,
            content = js ''AutoDeploy Agent v1.0 initialized. Ready for instructions.'',
            timestamp = clk 0, msg_type = Some Status \<rparr>],
       steps =
         [\<lparr> step_id = js ''1'', label = js ''Analyze Request'', status = Pending \<rparr>,
          \<lparr> step_id = js ''2'', label = js ''Generate Architecture'', status = Pending \<rparr>,
          \<lparr> step_id = js ''3'', label = js ''Write Code'', status = Pending \<rparr>,
          \<lparr> step_id = js ''4'', label = js ''Deploy to Edge'', status = Pending \<rparr>],
       pending = [],
       suspended = [],
       clock = clk,
       reads = 1 \<rparr>"

subsection \<open>What the updates do when a render applies them\<close>

definition setInput :: "jsstring \<Rightarrow> world \<Rightarrow> world" where
  "setInput t w = w\<lparr>input := t\<rparr>"

definition setIsProcessing :: "bool \<Rightarrow> world \<Rightarrow> world" where
  "setIsProcessing b w = w\<lparr>isProcessing := b\<rparr>"

text \<open>Line 78: \<open>prev => [...prev, userMsg]\<close>.\<close>

definition appendMessage :: "message \<Rightarrow> world \<Rightarrow> world" where
  "appendMessage m w = w\<lparr> messages := messages w @ [m] \<rparr>"

text \<open>Line 88: \<open>prev => prev.map(s => ({ ...s, status: 'pending' }))\<close>.\<close>

definition resetSteps :: "world \<Rightarrow> world" where
  "resetSteps w = w\<lparr> steps := map (\<lambda>s. s\<lparr>status := Pending\<rparr>) (steps w) \<rparr>"

text \<open>Lines 118 to 120: \<open>prev => prev.map(s => s.id === id ? { ...s, status } : s)\<close>.\<close>

definition updateStep :: "jsstring \<Rightarrow> status \<Rightarrow> world \<Rightarrow> world" where
  "updateStep i st w =
     w\<lparr> steps := map (\<lambda>s. if step_id s = i then s\<lparr>status := st\<rparr> else s) (steps w) \<rparr>"

text \<open>
  Lines 122 to 130.  The Entry is built inside the updater: its id is \<open>Date.now()\<close> and
  its timestamp \<open>new Date()\<close>, two readings of the clock made when the updater runs.  The
  parameter \<open>type\<close> defaults to \<open>'text'\<close> when it is not passed.
\<close>

definition addMessage :: "role \<Rightarrow> jsstring \<Rightarrow> msg_type option \<Rightarrow> world \<Rightarrow> world" where
  "addMessage r c ty w =
     w\<lparr> messages := messages w @
          [\<lparr> msg_id = toString (clock w (reads w)), role = r, content = c,
             timestamp = clock w (reads w + 1),
             msg_type = Some (case ty of None \<Rightarrow> Text | Some t \<Rightarrow> t) \<rparr>],
        reads := reads w + 2 \<rparr>"

fun exec :: "update \<Rightarrow> world \<Rightarrow> world" where
  "exec (Append m) w = appendMessage m w"
| "exec (SetInput t) w = setInput t w"
| "exec (SetIsProcessing b) w = setIsProcessing b w"
| "exec ResetSteps w = resetSteps w"
| "exec (UpdateStep i st) w = updateStep i st w"
| "exec (AddMessage r c ty) w = addMessage r c ty w"

subsection \<open>Rendering\<close>

text \<open>
  A render applies the queued updates in the order they were called and empties the
  queue.  \<open>apply_trace\<close> lists the values the cells go through while the updaters run
  one after the other; only the last of them is rendered.
\<close>

fun apply_all :: "update list \<Rightarrow> world \<Rightarrow> world" where
  "apply_all [] w = w"
| "apply_all (u # us) w = apply_all us (exec u w)"

fun apply_trace :: "update list \<Rightarrow> world \<Rightarrow> world list" where
  "apply_trace [] w = []"
| "apply_trace (u # us) w = exec u w # apply_trace us (exec u w)"

definition render :: "world \<Rightarrow> world" where
  "render w = (apply_all (pending w) w)\<lparr>pending := []\<rparr>"

definition render_trace :: "world \<Rightarrow> world list" where
  "render_trace w = apply_trace (pending w) w @ [render w]"

subsection \<open>Running an asynchronous body\<close>

text \<open>
  A setter called by a handler puts its update at the end of the queue.  \<open>resume\<close> runs
  the statements of a body until the body ends or reaches \<open>await delay(ms)\<close>, where the
  rest of the body is parked for the timer.  \<open>resume_trace\<close> is the same run, returning
  the state after every statement.
\<close>

definition enqueue :: "update \<Rightarrow> world \<Rightarrow> world" where
  "enqueue u w = w\<lparr>pending := pending w @ [u]\<rparr>"

fun resume :: "stmt list \<Rightarrow> world \<Rightarrow> world" where
  "resume [] w = w"
| "resume (Delay ms # rest) w = w\<lparr>suspended := suspended w @ [rest]\<rparr>"
| "resume (Do u # rest) w = resume rest (enqueue u w)"

fun resume_trace :: "stmt list \<Rightarrow> world \<Rightarrow> world list" where
  "resume_trace [] w = []"
| "resume_trace (Delay ms # rest) w = [w\<lparr>suspended := suspended w @ [rest]\<rparr>]"
| "resume_trace (Do u # rest) w = enqueue u w # resume_trace rest (enqueue u w)"

subsection \<open>\<open>simulateAgentProcess\<close> and \<open>handleSend\<close>\<close>

text \<open>Lines 86 to 116, statement by statement.\<close>

definition simulateAgentProcess :: "jsstring \<Rightarrow> stmt list" where
  "simulateAgentProcess prompt =
     [ Do ResetSteps,
       Do (UpdateStep (js ''1'') Active),
       Delay 1000,
       Do (AddMessage Agent
             (js ''Analyzing request: '' @ [0x22] @ prompt @ [0x22] @ js ''...'') None),
       Do (UpdateStep (js ''1'') Completed),
       Do (UpdateStep (js ''2'') Active),
       Delay 1500,
       Do (AddMessage Agent (js ''Generating system architecture...'') (Some Code)),
       Do (UpdateStep (js ''2'') Completed),
       Do (UpdateStep (js ''3'') Active),
       Delay 2000,
       Do (AddMessage Agent (js ''Writing React components and API routes...'') (Some Text)),
       Do (UpdateStep (js ''3'') Completed),
       Do (UpdateStep (js ''4'') Active),
       Delay 2000,
       Do (AddMessage System (js ''Deploying to production environment...'') (Some Status)),
       Do (UpdateStep (js ''4'') Completed),
       Do (AddMessage Agent (js ''Deployment successful! Application is live.'') (Some Text)),
       Do (SetIsProcessing False) ]"

text \<open>
  Lines 70 to 76: \<open>userMsg\<close> is built in \<open>handleSend\<close> itself, from the \<open>input\<close> of the render
  and two readings of the clock (\<open>Date.now()\<close> for the id, \<open>new Date()\<close> for the timestamp).
\<close>

definition userMsg :: "world \<Rightarrow> message" where
  "userMsg w =
     \<lparr> msg_id = toString (clock w (reads w)), role = User, content = input w,
       timestamp = clock w (reads w + 1), msg_type = Some Text \<rparr>"

text \<open>
  Lines 67 to 84.  The guard reads \<open>input\<close> and \<open>isProcessing\<close> as the last render had
  them.  Past it, the body queues the user's message, the clearing of the field and the
  raising of the flag, and runs \<open>simulateAgentProcess\<close> on the text of the render.
\<close>

definition handleSend_body :: "jsstring \<Rightarrow> message \<Rightarrow> stmt list" where
  "handleSend_body inp m =
     [Do (Append m), Do (SetInput []), Do (SetIsProcessing True)] @ simulateAgentProcess inp"

definition handleSend :: "world \<Rightarrow> world" where
  "handleSend w =
     (if trim (input w) = [] \<or> isProcessing w then w
      else resume (handleSend_body (input w) (userMsg w)) (w\<lparr>reads := reads w + 2\<rparr>))"

definition handleSend_trace :: "world \<Rightarrow> world list" where
  "handleSend_trace w =
     (if trim (input w) = [] \<or> isProcessing w then []
      else w\<lparr>reads := reads w + 2\<rparr> #
           resume_trace (handleSend_body (input w) (userMsg w)) (w\<lparr>reads := reads w + 2\<rparr>))"

subsection \<open>Events\<close>

text \<open>
  What can happen to the component: the field's \<open>onChange\<close> (line 274), a call of
  \<open>handleSend\<close> (lines 275 and 281), the timer of a parked body firing, and a render.
  \<open>TimerFired k\<close> resumes the k-th parked body; any order of the timers is allowed.
  \<open>fire_trace\<close> lists the states an event goes through, \<open>run_trace\<close> those of a sequence
  of events, and \<open>event_trace\<close> only the states after each event.  The four cells change
  at renders only, and the values in the middle of a render are never shown, so
  \<open>event_trace\<close> is what can be seen of the component.
\<close>

datatype event = Typed jsstring | Send | TimerFired nat | Render

definition unpark :: "nat \<Rightarrow> world \<Rightarrow> world" where
  "unpark k w = w\<lparr>suspended := take k (suspended w) @ drop (Suc k) (suspended w)\<rparr>"

fun fire :: "event \<Rightarrow> world \<Rightarrow> world" where
  "fire (Typed t) w = enqueue (SetInput t) w"
| "fire Send w = handleSend w"
| "fire (TimerFired k) w =
     (if k < length (suspended w) then resume (suspended w ! k) (unpark k w) else w)"
| "fire Render w = render w"

fun fire_trace :: "event \<Rightarrow> world \<Rightarrow> world list" where
  "fire_trace (Typed t) w = [enqueue (SetInput t) w]"
| "fire_trace Send w = handleSend_trace w"
| "fire_trace (TimerFired k) w =
     (if k < length (suspended w)
      then unpark k w # resume_trace (suspended w ! k) (unpark k w) else [])"
| "fire_trace Render w = render_trace w"

fun run :: "event list \<Rightarrow> world \<Rightarrow> world" where
  "run [] w = w"
| "run (e # es) w = run es (fire e w)"

fun run_trace :: "event list \<Rightarrow> world \<Rightarrow> world list" where
  "run_trace [] w = []"
| "run_trace (e # es) w = fire_trace e w @ run_trace es (fire e w)"

fun event_trace :: "event list \<Rightarrow> world \<Rightarrow> world list" where
  "event_trace [] w = []"
| "event_trace (e # es) w = fire e w # event_trace es (fire e w)"

inductive reachable :: "world \<Rightarrow> bool" where
  reachable_init: "reachable (init clk)"
| reachable_fire: "reachable w \<Longrightarrow> reachable (fire e w)"

subsection \<open>What an observer sees\<close>

text \<open>
  Two consecutive states are compared the way a subscriber to the step tracker and the
  message list would: a step whose status differs gives \<open>StepChanged id label old new\<close>
  (steps in their order), and every message beyond the old length of \<open>messages\<close> gives
  \<open>EntryAppended\<close>.  \<open>log\<close> is the sequence of these observations along a trace.
\<close>

datatype obs = StepChanged jsstring jsstring status status | EntryAppended message

definition observe :: "world \<Rightarrow> world \<Rightarrow> obs list" where
  "observe a b =
     concat (map2 (\<lambda>x y. if status x = status y then []
                          else [StepChanged (step_id y) (label y) (status x) (status y)])
                  (steps a) (steps b))
     @ map EntryAppended (drop (length (messages a)) (messages b))"

fun log :: "world list \<Rightarrow> obs list" where
  "log (a # b # tr) = observe a b @ log (b # tr)"
| "log tr = []"

text \<open>The ids, and the labels, of the steps that entered \<open>completed\<close>, in the order they did.\<close>

fun completed_id :: "obs \<Rightarrow> jsstring list" where
  "completed_id (StepChanged i l a b) = (if b = Completed then [i] else [])"
| "completed_id (EntryAppended m) = []"

fun completed_label :: "obs \<Rightarrow> jsstring list" where
  "completed_label (StepChanged i l a b) = (if b = Completed then [l] else [])"
| "completed_label (EntryAppended m) = []"

definition completed_ids :: "obs list \<Rightarrow> jsstring list" where
  "completed_ids l = concat (map completed_id l)"

definition completed_labels :: "obs list \<Rightarrow> jsstring list" where
  "completed_labels l = concat (map completed_label l)"

text \<open>The status changes of the step with id \<open>k\<close>, as pairs (old, new), in order.\<close>

fun transition_of :: "jsstring \<Rightarrow> obs \<Rightarrow> (status \<times> status) list" where
  "transition_of k (StepChanged i l a b) = (if i = k then [(a, b)] else [])"
| "transition_of k (EntryAppended m) = []"

definition transitions_of :: "jsstring \<Rightarrow> obs list \<Rightarrow> (status \<times> status) list" where
  "transitions_of k l = concat (map (transition_of k) l)"

definition status_of :: "jsstring \<Rightarrow> world \<Rightarrow> status list" where
  "status_of k w = map status (filter (\<lambda>s. step_id s = k) (steps w))"

text \<open>The messages appended while the step with id \<open>k\<close> was \<open>active\<close>.\<close>

definition is_active :: "jsstring \<Rightarrow> world \<Rightarrow> bool" where
  "is_active k w = list_ex (\<lambda>s. step_id s = k \<and> status s = Active) (steps w)"

fun entries_while_active :: "jsstring \<Rightarrow> world list \<Rightarrow> message list" where
  "entries_while_active k (a # b # tr) =
     (if is_active k a then drop (length (messages a)) (messages b) else [])
     @ entries_while_active k (b # tr)"
| "entries_while_active k tr = []"

subsection \<open>The fixed step sequence, idle states and the events of one Run\<close>

definition step_ids :: "jsstring list" where
  "step_ids = [js ''1'', js ''2'', js ''3'', js ''4'']"

definition step_labels :: "jsstring list" where
  "step_labels =
     [js ''Analyze Request'', js ''Generate Architecture'', js ''Write Code'', js ''Deploy to Edge'']"

text \<open>No Run is in progress: the flag is down, nothing is queued and no body is parked.\<close>

definition idle :: "world \<Rightarrow> bool" where
  "idle w = (\<not> isProcessing w \<and> pending w = [] \<and> suspended w = [])"

text \<open>
  The events of one Run that no other Run overlaps: the accepted \<open>handleSend\<close> and the
  four timers, each followed by the render that applies what it queued.
\<close>

definition one_run :: "event list" where
  "one_run = [Send, Render, TimerFired 0, Render, TimerFired 0, Render,
              TimerFired 0, Render, TimerFired 0, Render]"

subsection \<open>Concrete scenarios\<close>

text \<open>
  The idle component with the request of the spec's scenario typed into the field and
  rendered, for any clock; the idle component after the Run of that scenario, with a
  second request typed in; and two clocks: one that advances by a second at every
  reading, and one on which all readings made in one render fall into the same
  millisecond, while the waits of 1000, 1500, 2000 and 2000 ms lie between the renders.
\<close>

definition todo_idle :: "(nat \<Rightarrow> int) \<Rightarrow> world" where
  "todo_idle clk = run [Typed (js ''build a todo app''), Render] (init clk)"

definition demo_clock :: "nat \<Rightarrow> int" where
  "demo_clock n = 1700000000000 + 1000 * int n"

definition todo_again :: world where
  "todo_again = run [Typed (js ''again''), Render] (run one_run (todo_idle demo_clock))"

definition same_ms_clock :: "nat \<Rightarrow> int" where
  "same_ms_clock n =
     (if n < 1 then 1700000000000
      else if n < 3 then 1700000004000
      else if n < 5 then 1700000005001
      else if n < 7 then 1700000006502
      else if n < 9 then 1700000008503
      else 1700000010504)"

text \<open>The updates that a call of \<open>handleSend\<close> adds to the queue.\<close>

definition handleSend_updates :: "world \<Rightarrow> update list" where
  "handleSend_updates w = drop (length (pending w)) (pending (handleSend w))"


section \<open>Basic facts\<close>

lemmas setters =
  setInput_def setIsProcessing_def appendMessage_def resetSteps_def updateStep_def addMessage_def

lemmas bodies =
  handleSend_def handleSend_trace_def handleSend_body_def simulateAgentProcess_def userMsg_def
  enqueue_def unpark_def render_def render_trace_def

lemma js_ids: "js ''1'' = [49]" "js ''2'' = [50]" "js ''3'' = [51]" "js ''4'' = [52]"
  by (simp_all add: js_def)

text \<open>\<open>!input.trim()\<close> holds exactly for the strings made of white space only.\<close>

lemma trim_Nil_iff: "trim s = [] \<longleftrightarrow> (\<forall>c\<in>set s. isWhiteSpace c)"
proof
  assume "trim s = []"
  then have a: "\<forall>c\<in>set (dropWhile isWhiteSpace s). isWhiteSpace c"
    by (simp add: trim_def)
  have "dropWhile isWhiteSpace s = []"
  proof (rule ccontr)
    assume n: "dropWhile isWhiteSpace s \<noteq> []"
    then have "\<not> isWhiteSpace (hd (dropWhile isWhiteSpace s))" by (rule hd_dropWhile)
    moreover from n have "hd (dropWhile isWhiteSpace s) \<in> set (dropWhile isWhiteSpace s)"
      by (rule hd_in_set)
    ultimately show False using a by blast
  qed
  then show "\<forall>c\<in>set s. isWhiteSpace c" by (simp only: dropWhile_eq_Nil_conv)
next
  assume "\<forall>c\<in>set s. isWhiteSpace c"
  then have "dropWhile isWhiteSpace s = []" by (simp only: dropWhile_eq_Nil_conv)
  then show "trim s = []" unfolding trim_def by (simp only: rev.simps dropWhile.simps)
qed

lemma nonblank: "(\<exists>c\<in>set s. \<not> isWhiteSpace c) \<longleftrightarrow> trim s \<noteq> []"
  by (simp add: trim_Nil_iff)

text \<open>The guard of line 68 rejects when the render it reads has the flag up.\<close>

lemma handleSend_flag_up: "isProcessing w \<Longrightarrow> handleSend w = w \<and> handleSend_trace w = []"
  by (simp add: handleSend_def handleSend_trace_def)

subsection \<open>What never changes\<close>

lemma exec_messages: "prefix (messages w) (messages (exec u w))"
  by (cases u) (simp_all add: setters)

lemma exec_ids: "map step_id (steps (exec u w)) = map step_id (steps w)"
  by (cases u) (simp_all add: setters comp_def)

lemma exec_labels: "map label (steps (exec u w)) = map label (steps w)"
  by (cases u) (simp_all add: setters comp_def)

lemma resume_cells:
  "messages (resume cs w) = messages w" "steps (resume cs w) = steps w"
  "input (resume cs w) = input w" "isProcessing (resume cs w) = isProcessing w"
  by (induction cs w rule: resume.induct) (simp_all add: enqueue_def)

lemma apply_all_ids:
  "map step_id (steps (apply_all us w)) = map step_id (steps w)"
  "map label (steps (apply_all us w)) = map label (steps w)"
  by (induction us w rule: apply_all.induct) (simp_all add: exec_ids exec_labels)

lemma fire_ids:
  "map step_id (steps (fire e w)) = map step_id (steps w)"
  "map label (steps (fire e w)) = map label (steps w)"
  by (cases e; simp add: handleSend_def resume_cells enqueue_def unpark_def render_def apply_all_ids)+

lemma reachable_steps:
  "reachable w \<Longrightarrow> map step_id (steps w) = step_ids \<and> map label (steps w) = step_labels"
proof (induction rule: reachable.induct)
  case (reachable_init clk)
  show ?case by (simp add: init_def step_ids_def step_labels_def)
next
  case (reachable_fire w e)
  then show ?case by (simp only: fire_ids)
qed

lemma four_steps:
  assumes "reachable w"
  obtains a b c d where "steps w = [a, b, c, d]"
    "step_id a = js ''1''" "step_id b = js ''2''" "step_id c = js ''3''" "step_id d = js ''4''"
    "label a = js ''Analyze Request''" "label b = js ''Generate Architecture''"
    "label c = js ''Write Code''" "label d = js ''Deploy to Edge''"
  using reachable_steps [OF assms] unfolding step_ids_def step_labels_def
  by (auto simp: map_eq_Cons_conv)

lemma reachable_run: "reachable w \<Longrightarrow> reachable (run es w)"
  by (induction es arbitrary: w) (simp_all add: reachable_fire del: fire.simps)

lemma updateStep_absent: "i \<notin> step_id ` set (steps w) \<Longrightarrow> updateStep i st w = w"
proof -
  assume a: "i \<notin> step_id ` set (steps w)"
  have "map (\<lambda>s. if step_id s = i then s\<lparr>status := st\<rparr> else s) (steps w) = steps w"
    using a by (intro map_idI) auto
  then show ?thesis by (simp add: updateStep_def)
qed

subsection \<open>Traces\<close>

lemma apply_trace_last: "last (w # apply_trace us w) = apply_all us w"
  by (induction us w rule: apply_trace.induct) simp_all

lemma resume_trace_last: "last (w # resume_trace cs w) = resume cs w"
  by (induction cs w rule: resume_trace.induct) simp_all

lemma fire_trace_last: "last (w # fire_trace e w) = fire e w"
proof (cases e)
  case (TimerFired k)
  then show ?thesis
    using resume_trace_last [of "unpark k w" "suspended w ! k"] by simp
next
  case Send
  then show ?thesis
    using resume_trace_last [of "w\<lparr>reads := reads w + 2\<rparr>" "handleSend_body (input w) (userMsg w)"]
    by (simp add: handleSend_def handleSend_trace_def)
qed (simp_all add: render_trace_def)

lemma run_trace_last: "last (w # run_trace es w) = run es w"
proof (induction es arbitrary: w)
  case Nil show ?case by simp
next
  case (Cons e es)
  show ?case
  proof (cases "run_trace es (fire e w) = []")
    case True
    with Cons.IH [of "fire e w"] fire_trace_last [of w e] show ?thesis by simp
  next
    case False
    with Cons.IH [of "fire e w"] show ?thesis by simp
  qed
qed

text \<open>
  A relation that holds across every applied update, and between any two states with
  the same messages and steps, holds along every trace.
\<close>

lemma apply_trace_successively:
  assumes step: "\<And>u v. P v (exec u v)"
  shows "successively P (w # apply_trace us w)"
  by (induction us w rule: apply_trace.induct) (simp_all add: step del: exec.simps)

lemma resume_trace_successively:
  assumes same: "\<And>v v'. messages v' = messages v \<Longrightarrow> steps v' = steps v \<Longrightarrow> P v v'"
  shows "successively P (w # resume_trace cs w)"
  by (induction cs w rule: resume_trace.induct) (simp_all add: same enqueue_def)

lemma fire_trace_successively:
  assumes step: "\<And>u v. P v (exec u v)"
    and same: "\<And>v v'. messages v' = messages v \<Longrightarrow> steps v' = steps v \<Longrightarrow> P v v'"
  shows "successively P (w # fire_trace e w)"
proof (cases e)
  case (Typed t)
  then show ?thesis by (simp add: same enqueue_def)
next
  case Send
  have "successively P (w # w\<lparr>reads := reads w + 2\<rparr> #
          resume_trace (handleSend_body (input w) (userMsg w)) (w\<lparr>reads := reads w + 2\<rparr>))"
    using resume_trace_successively [of P, OF same] by (simp add: same)
  with Send show ?thesis by (simp add: handleSend_trace_def)
next
  case (TimerFired k)
  have "successively P (w # unpark k w # resume_trace (suspended w ! k) (unpark k w))"
    using resume_trace_successively [of P, OF same] by (simp add: same unpark_def)
  with TimerFired show ?thesis by simp
next
  case Render
  have a: "successively P (w # apply_trace (pending w) w)"
    by (rule apply_trace_successively [of P, OF step])
  have "P (last (w # apply_trace (pending w) w)) (render w)"
    unfolding apply_trace_last by (rule same) (simp_all add: render_def)
  with a have "successively P ((w # apply_trace (pending w) w) @ [render w])"
    unfolding successively_append_iff by simp
  with Render show ?thesis by (simp add: render_trace_def)
qed

lemma run_trace_successively:
  assumes step: "\<And>u v. P v (exec u v)"
    and same: "\<And>v v'. messages v' = messages v \<Longrightarrow> steps v' = steps v \<Longrightarrow> P v v'"
  shows "successively P (w # run_trace es w)"
proof (induction es arbitrary: w)
  case Nil show ?case by simp
next
  case (Cons e es)
  let ?a = "w # fire_trace e w" and ?b = "run_trace es (fire e w)"
  have a: "successively P ?a" by (rule fire_trace_successively [of P, OF step same])
  have b: "successively P (fire e w # ?b)" by (rule Cons.IH)
  have "successively P (?a @ ?b)"
    unfolding successively_append_iff
    using a b fire_trace_last [of w e] by (auto simp: successively_Cons simp del: last.simps)
  then show ?case by simp
qed

lemma run_trace_sorted_wrt:
  assumes step: "\<And>u v. P v (exec u v)"
    and same: "\<And>v v'. messages v' = messages v \<Longrightarrow> steps v' = steps v \<Longrightarrow> P v v'"
    and trans: "transp P"
  shows "sorted_wrt P (w # run_trace es w)"
  using run_trace_successively [of P, OF step same] successively_conv_sorted_wrt [OF trans]
  by blast

lemma same_steps_trace:
  "\<forall>s\<in>set (run_trace es w).
     map step_id (steps s) = map step_id (steps w) \<and> map label (steps s) = map label (steps w)"
proof -
  let ?P = "\<lambda>a b. map step_id (steps b) = map step_id (steps a) \<and>
                   map label (steps b) = map label (steps a)"
  have "transp ?P" by (auto simp: transp_def)
  then have "sorted_wrt ?P (w # run_trace es w)"
    by (intro run_trace_sorted_wrt) (simp_all add: exec_ids exec_labels)
  then show ?thesis by simp
qed

subsection \<open>One Run from an idle state\<close>

text \<open>The Run in the order in which its updates are applied, and its last state.\<close>

lemma run_log:
  assumes "reachable w" "idle w" "trim (input w) \<noteq> []"
  shows "log (w # run_trace one_run w) =
    EntryAppended \<lparr> msg_id = toString (clock w (reads w)), role = User, content = input w,
                    timestamp = clock w (reads w + 1), msg_type = Some Text \<rparr> #
    concat (map (\<lambda>s. if status s = Pending then []
                      else [StepChanged (step_id s) (label s) (status s) Pending]) (steps w)) @
    [StepChanged (js ''1'') (js ''Analyze Request'') Pending Active,
     EntryAppended \<lparr> msg_id = toString (clock w (reads w + 2)), role = Agent,
                     content = js ''Analyzing request: '' @ [0x22] @ input w @ [0x22] @ js ''...'',
                     timestamp = clock w (reads w + 3), msg_type = Some Text \<rparr>,
     StepChanged (js ''1'') (js ''Analyze Request'') Active Completed,
     StepChanged (js ''2'') (js ''Generate Architecture'') Pending Active,
     EntryAppended \<lparr> msg_id = toString (clock w (reads w + 4)), role = Agent,
                     content = js ''Generating system architecture...'',
                     timestamp = clock w (reads w + 5), msg_type = Some Code \<rparr>,
     StepChanged (js ''2'') (js ''Generate Architecture'') Active Completed,
     StepChanged (js ''3'') (js ''Write Code'') Pending Active,
     EntryAppended \<lparr> msg_id = toString (clock w (reads w + 6)), role = Agent,
                     content = js ''Writing React components and API routes...'',
                     timestamp = clock w (reads w + 7), msg_type = Some Text \<rparr>,
     StepChanged (js ''3'') (js ''Write Code'') Active Completed,
     StepChanged (js ''4'') (js ''Deploy to Edge'') Pending Active,
     EntryAppended \<lparr> msg_id = toString (clock w (reads w + 8)), role = System,
                     content = js ''Deploying to production environment...'',
                     timestamp = clock w (reads w + 9), msg_type = Some Status \<rparr>,
     StepChanged (js ''4'') (js ''Deploy to Edge'') Active Completed,
     EntryAppended \<lparr> msg_id = toString (clock w (reads w + 10)), role = Agent,
                     content = js ''Deployment successful! Application is live.'',
                     timestamp = clock w (reads w + 11), msg_type = Some Text \<rparr>]"
proof -
  from assms(1) obtain a b c d where s: "steps w = [a, b, c, d]"
    "step_id a = js ''1''" "step_id b = js ''2''" "step_id c = js ''3''" "step_id d = js ''4''"
    "label a = js ''Analyze Request''" "label b = js ''Generate Architecture''"
    "label c = js ''Write Code''" "label d = js ''Deploy to Edge''" by (rule four_steps)
  with assms(2,3) show ?thesis
    by (simp add: idle_def one_run_def bodies setters observe_def js_ids)
       (simp add: eval_nat_numeral)
qed

lemma run_final:
  assumes "reachable w" "idle w" "trim (input w) \<noteq> []"
  shows "run one_run w =
    w\<lparr> input := [], isProcessing := False,
       messages := messages w @
         [\<lparr> msg_id = toString (clock w (reads w)), role = User, content = input w,
            timestamp = clock w (reads w + 1), msg_type = Some Text \<rparr>,
          \<lparr> msg_id = toString (clock w (reads w + 2)), role = Agent,
            content = js ''Analyzing request: '' @ [0x22] @ input w @ [0x22] @ js ''...'',
            timestamp = clock w (reads w + 3), msg_type = Some Text \<rparr>,
          \<lparr> msg_id = toString (clock w (reads w + 4)), role = Agent,
            content = js ''Generating system architecture...'',
            timestamp = clock w (reads w + 5), msg_type = Some Code \<rparr>,
          \<lparr> msg_id = toString (clock w (reads w + 6)), role = Agent,
            content = js ''Writing React components and API routes...'',
            timestamp = clock w (reads w + 7), msg_type = Some Text \<rparr>,
          \<lparr> msg_id = toString (clock w (reads w + 8)), role = System,
            content = js ''Deploying to production environment...'',
            timestamp = clock w (reads w + 9), msg_type = Some Status \<rparr>,
          \<lparr> msg_id = toString (clock w (reads w + 10)), role = Agent,
            content = js ''Deployment successful! Application is live.'',
            timestamp = clock w (reads w + 11), msg_type = Some Text \<rparr>],
       steps := map (\<lambda>s. s\<lparr>status := Completed\<rparr>) (steps w),
       reads := reads w + 12 \<rparr>"
proof -
  from assms(1) obtain a b c d where s: "steps w = [a, b, c, d]"
    "step_id a = js ''1''" "step_id b = js ''2''" "step_id c = js ''3''" "step_id d = js ''4''"
    "label a = js ''Analyze Request''" "label b = js ''Generate Architecture''"
    "label c = js ''Write Code''" "label d = js ''Deploy to Edge''" by (rule four_steps)
  with assms(2,3) show ?thesis
    by (simp add: idle_def one_run_def bodies setters js_ids) (simp add: eval_nat_numeral)
qed

text \<open>
  The same Run seen from render to render.  In the first render of a Run the reset and
  the activation of step 1 arrive together.
\<close>

lemma commit_log:
  assumes "reachable w" "idle w" "trim (input w) \<noteq> []"
  shows "log (w # event_trace one_run w) =
    concat (map (\<lambda>s. if status s = (if step_id s = js ''1'' then Active else Pending) then []
                      else [StepChanged (step_id s) (label s) (status s)
                              (if step_id s = js ''1'' then Active else Pending)]) (steps w)) @
    [EntryAppended \<lparr> msg_id = toString (clock w (reads w)), role = User, content = input w,
                     timestamp = clock w (reads w + 1), msg_type = Some Text \<rparr>,
     StepChanged (js ''1'') (js ''Analyze Request'') Active Completed,
     StepChanged (js ''2'') (js ''Generate Architecture'') Pending Active,
     EntryAppended \<lparr> msg_id = toString (clock w (reads w + 2)), role = Agent,
                     content = js ''Analyzing request: '' @ [0x22] @ input w @ [0x22] @ js ''...'',
                     timestamp = clock w (reads w + 3), msg_type = Some Text \<rparr>,
     StepChanged (js ''2'') (js ''Generate Architecture'') Active Completed,
     StepChanged (js ''3'') (js ''Write Code'') Pending Active,
     EntryAppended \<lparr> msg_id = toString (clock w (reads w + 4)), role = Agent,
                     content = js ''Generating system architecture...'',
                     timestamp = clock w (reads w + 5), msg_type = Some Code \<rparr>,
     StepChanged (js ''3'') (js ''Write Code'') Active Completed,
     StepChanged (js ''4'') (js ''Deploy to Edge'') Pending Active,
     EntryAppended \<lparr> msg_id = toString (clock w (reads w + 6)), role = Agent,
                     content = js ''Writing React components and API routes...'',
                     timestamp = clock w (reads w + 7), msg_type = Some Text \<rparr>,
     StepChanged (js ''4'') (js ''Deploy to Edge'') Active Completed,
     EntryAppended \<lparr> msg_id = toString (clock w (reads w + 8)), role = System,
                     content = js ''Deploying to production environment...'',
                     timestamp = clock w (reads w + 9), msg_type = Some Status \<rparr>,
     EntryAppended \<lparr> msg_id = toString (clock w (reads w + 10)), role = Agent,
                     content = js ''Deployment successful! Application is live.'',
                     timestamp = clock w (reads w + 11), msg_type = Some Text \<rparr>]"
proof -
  from assms(1) obtain a b c d where s: "steps w = [a, b, c, d]"
    "step_id a = js ''1''" "step_id b = js ''2''" "step_id c = js ''3''" "step_id d = js ''4''"
    "label a = js ''Analyze Request''" "label b = js ''Generate Architecture''"
    "label c = js ''Write Code''" "label d = js ''Deploy to Edge''" by (rule four_steps)
  with assms(2,3) show ?thesis
    by (simp add: idle_def one_run_def bodies setters observe_def js_ids)
       (simp add: eval_nat_numeral)
qed

lemma transitions_of_append:
  "transitions_of k (xs @ ys) = transitions_of k xs @ transitions_of k ys"
  by (simp add: transitions_of_def)

lemma transitions_of_first_commit:
  "transitions_of k
     (concat (map (\<lambda>s. if status s = (if step_id s = js ''1'' then Active else Pending) then []
                      else [StepChanged (step_id s) (label s) (status s)
                              (if step_id s = js ''1'' then Active else Pending)]) xs)) =
   map (\<lambda>s. (s, if k = js ''1'' then Active else Pending))
     (filter (\<lambda>s. s \<noteq> (if k = js ''1'' then Active else Pending))
        (map status (filter (\<lambda>s. step_id s = k) xs)))"
  by (induction xs) (simp_all add: transitions_of_def)

lemma commit_transitions:
  assumes "reachable w" "idle w" "trim (input w) \<noteq> []" "k \<in> set step_ids"
  shows "transitions_of k (log (w # event_trace one_run w)) =
           map (\<lambda>s. (s, if k = js ''1'' then Active else Pending))
             (filter (\<lambda>s. s \<noteq> (if k = js ''1'' then Active else Pending)) (status_of k w)) @
           (if k = js ''1'' then [(Active, Completed)]
            else [(Pending, Active), (Active, Completed)])"
proof -
  have "transitions_of k (log (w # event_trace one_run w)) =
     transitions_of k
       (concat (map (\<lambda>s. if status s = (if step_id s = js ''1'' then Active else Pending) then []
                      else [StepChanged (step_id s) (label s) (status s)
                              (if step_id s = js ''1'' then Active else Pending)]) (steps w))) @
     (if k = js ''1'' then [(Active, Completed)]
      else [(Pending, Active), (Active, Completed)])"
    unfolding commit_log [OF assms(1,2,3)] using assms(4)
    by (simp only: transitions_of_append)
       (auto simp add: transitions_of_def step_ids_def js_ids)
  then show ?thesis by (simp only: transitions_of_first_commit status_of_def)
qed

lemma commit_after_first:
  assumes "reachable w" "idle w" "trim (input w) \<noteq> []"
  shows "map status (steps (run [Send, Render] w)) = [Active, Pending, Pending, Pending]"
    and "map (\<lambda>k. transitions_of k (log (drop 1 (event_trace one_run w)))) step_ids =
           [[(Active, Completed)], [(Pending, Active), (Active, Completed)],
            [(Pending, Active), (Active, Completed)], [(Pending, Active), (Active, Completed)]]"
proof -
  from assms(1) obtain a b c d where s: "steps w = [a, b, c, d]"
    "step_id a = js ''1''" "step_id b = js ''2''" "step_id c = js ''3''" "step_id d = js ''4''"
    "label a = js ''Analyze Request''" "label b = js ''Generate Architecture''"
    "label c = js ''Write Code''" "label d = js ''Deploy to Edge''" by (rule four_steps)
  with assms(2,3) show "map status (steps (run [Send, Render] w)) = [Active, Pending, Pending, Pending]"
    by (simp add: idle_def bodies setters js_ids)
  from s assms(2,3) show "map (\<lambda>k. transitions_of k (log (drop 1 (event_trace one_run w)))) step_ids =
           [[(Active, Completed)], [(Pending, Active), (Active, Completed)],
            [(Pending, Active), (Active, Completed)], [(Pending, Active), (Active, Completed)]]"
    by (simp add: idle_def one_run_def bodies setters js_ids observe_def step_ids_def transitions_of_def)
qed

lemma commit_entries:
  assumes "reachable w" "idle w" "trim (input w) \<noteq> []"
    "\<forall>s\<in>set (steps w). status s \<noteq> Active"
  shows "map (\<lambda>k. entries_while_active k (w # event_trace one_run w)) step_ids =
    [[\<lparr> msg_id = toString (clock w (reads w + 2)), role = Agent,
        content = js ''Analyzing request: '' @ [0x22] @ input w @ [0x22] @ js ''...'',
        timestamp = clock w (reads w + 3), msg_type = Some Text \<rparr>],
     [\<lparr> msg_id = toString (clock w (reads w + 4)), role = Agent,
        content = js ''Generating system architecture...'',
        timestamp = clock w (reads w + 5), msg_type = Some Code \<rparr>],
     [\<lparr> msg_id = toString (clock w (reads w + 6)), role = Agent,
        content = js ''Writing React components and API routes...'',
        timestamp = clock w (reads w + 7), msg_type = Some Text \<rparr>],
     [\<lparr> msg_id = toString (clock w (reads w + 8)), role = System,
        content = js ''Deploying to production environment...'',
        timestamp = clock w (reads w + 9), msg_type = Some Status \<rparr>,
      \<lparr> msg_id = toString (clock w (reads w + 10)), role = Agent,
        content = js ''Deployment successful! Application is live.'',
        timestamp = clock w (reads w + 11), msg_type = Some Text \<rparr>]]"
proof -
  from assms(1) obtain a b c d where s: "steps w = [a, b, c, d]"
    "step_id a = js ''1''" "step_id b = js ''2''" "step_id c = js ''3''" "step_id d = js ''4''"
    "label a = js ''Analyze Request''" "label b = js ''Generate Architecture''"
    "label c = js ''Write Code''" "label d = js ''Deploy to Edge''" by (rule four_steps)
  with assms(4) have n: "status a \<noteq> Active" "status b \<noteq> Active" "status c \<noteq> Active"
    "status d \<noteq> Active" by simp_all
  from s n assms(2,3) show ?thesis
    by (simp add: idle_def one_run_def bodies setters js_ids step_ids_def is_active_def)
       (simp add: eval_nat_numeral)
qed



subsection \<open>The scenarios\<close>

lemma todo_nonblank: "trim (js ''build a todo app'') \<noteq> []"
  by (simp add: trim_def js_def isWhiteSpace_def)

lemma again_nonblank: "trim (js ''again'') \<noteq> []"
  by (simp add: trim_def js_def isWhiteSpace_def)

lemma todo_idle_facts:
  "reachable (todo_idle clk)" "idle (todo_idle clk)"
  "trim (input (todo_idle clk)) \<noteq> []" "input (todo_idle clk) = js ''build a todo app''"
  "clock (todo_idle clk) = clk" "reads (todo_idle clk) = 1"
  "messages (todo_idle clk) = messages (init clk)"
  "map status (steps (todo_idle clk)) = [Pending, Pending, Pending, Pending]"
proof -
  show "reachable (todo_idle clk)"
    unfolding todo_idle_def by (intro reachable_run reachable_init)
  show "idle (todo_idle clk)" "input (todo_idle clk) = js ''build a todo app''"
    "clock (todo_idle clk) = clk" "reads (todo_idle clk) = 1"
    "messages (todo_idle clk) = messages (init clk)"
    "map status (steps (todo_idle clk)) = [Pending, Pending, Pending, Pending]"
    by (simp_all add: todo_idle_def idle_def enqueue_def render_def setInput_def init_def)
  then show "trim (input (todo_idle clk)) \<noteq> []" by (simp add: todo_nonblank)
qed

lemma todo_again_facts:
  "reachable todo_again" "idle todo_again"
  "\<exists>c\<in>set (input todo_again). \<not> isWhiteSpace c"
  "map status (steps todo_again) = [Completed, Completed, Completed, Completed]"
  "status_of (js ''1'') todo_again = [Completed]"
  "status_of (js ''3'') todo_again = [Completed]"
proof -
  note f = todo_idle_facts [of demo_clock]
  note fin = run_final [OF f(1) f(2) f(3)]
  from f(2) have i: "pending (todo_idle demo_clock) = []" "suspended (todo_idle demo_clock) = []"
    by (simp_all add: idle_def)
  show "reachable todo_again"
    unfolding todo_again_def using f(1) by (intro reachable_run)
  show "idle todo_again"
    unfolding todo_again_def fin using i by (simp add: idle_def enqueue_def render_def setInput_def)
  have "input todo_again = js ''again''"
    unfolding todo_again_def fin using i by (simp add: enqueue_def render_def setInput_def)
  then show "\<exists>c\<in>set (input todo_again). \<not> isWhiteSpace c"
    using again_nonblank by (simp add: nonblank)
  from f(1) obtain a b c d where s: "steps (todo_idle demo_clock) = [a, b, c, d]"
    "step_id a = js ''1''" "step_id b = js ''2''" "step_id c = js ''3''" "step_id d = js ''4''"
    by (rule four_steps)
  then show "map status (steps todo_again) = [Completed, Completed, Completed, Completed]"
    "status_of (js ''1'') todo_again = [Completed]"
    "status_of (js ''3'') todo_again = [Completed]"
    unfolding todo_again_def fin using i
    by (simp_all add: enqueue_def render_def setInput_def status_of_def js_ids)
qed


lemma same_ms_values:
  "same_ms_clock 1 = 1700000004000" "same_ms_clock 3 = 1700000005001"
  "same_ms_clock 5 = 1700000006502" "same_ms_clock 7 = 1700000008503"
  "same_ms_clock 9 = 1700000010504" "same_ms_clock 11 = 1700000010504"
  "same_ms_clock (Suc 0) = 1700000004000" "same_ms_clock (Suc (Suc (Suc 0))) = 1700000005001"
  by (simp_all add: same_ms_clock_def)

lemma same_ms_strings:
  "toString 1700000004000 = js ''1700000004000''" "toString 1700000005001 = js ''1700000005001''"
  "toString 1700000006502 = js ''1700000006502''" "toString 1700000008503 = js ''1700000008503''"
  "toString 1700000010504 = js ''1700000010504''"
  by (simp_all add: toString_def digits.simps js_def)

section \<open>A Run from start to end\<close>

text \<open>
  C1. From any state the program can reach in which no Run is in progress and the input
  field holds a character that is not white space, \<open>handleSend\<close> followed by the four
  timers of \<open>simulateAgentProcess\<close>, each with its render, ends with all four steps
  \<open>completed\<close>, the processing flag lowered, nothing queued and nothing parked.  In the
  order in which the updates are applied, the steps enter \<open>completed\<close> in the order
  1, 2, 3, 4, each exactly once, and the last two observations are step 4 entering
  \<open>completed\<close> and then the appended success Entry, which is the last message of the
  timeline.  Seen from render to render the steps enter \<open>completed\<close> in the same order and
  the success Entry is again the last observation.
\<close>

theorem run_completes:
  assumes "reachable w" "idle w" "\<exists>c\<in>set (input w). \<not> isWhiteSpace c"
  shows "map status (steps (run one_run w)) = [Completed, Completed, Completed, Completed] \<and>
         \<not> isProcessing (run one_run w) \<and> suspended (run one_run w) = [] \<and>
         pending (run one_run w) = [] \<and>
         completed_ids (log (w # run_trace one_run w)) = [js ''1'', js ''2'', js ''3'', js ''4''] \<and>
         last (butlast (log (w # run_trace one_run w))) =
           StepChanged (js ''4'') (js ''Deploy to Edge'') Active Completed \<and>
         last (log (w # run_trace one_run w)) =
           EntryAppended \<lparr> msg_id = toString (clock w (reads w + 10)), role = Agent,
                           content = js ''Deployment successful! Application is live.'',
                           timestamp = clock w (reads w + 11), msg_type = Some Text \<rparr> \<and>
         last (messages (run one_run w)) =
           \<lparr> msg_id = toString (clock w (reads w + 10)), role = Agent,
             content = js ''Deployment successful! Application is live.'',
             timestamp = clock w (reads w + 11), msg_type = Some Text \<rparr> \<and>
         completed_ids (log (w # event_trace one_run w)) = [js ''1'', js ''2'', js ''3'', js ''4''] \<and>
         last (log (w # event_trace one_run w)) =
           EntryAppended \<lparr> msg_id = toString (clock w (reads w + 10)), role = Agent,
                           content = js ''Deployment successful! Application is live.'',
                           timestamp = clock w (reads w + 11), msg_type = Some Text \<rparr>"
proof -
  have nb: "trim (input w) \<noteq> []" using assms(3) by (simp add: trim_Nil_iff)
  note fin = run_final [OF assms(1,2) nb] and lg = run_log [OF assms(1,2) nb]
    and cl = commit_log [OF assms(1,2) nb]
  from assms(2) have i: "pending w = []" "suspended w = []" by (simp_all add: idle_def)
  from assms(1) obtain a b c d where s: "steps w = [a, b, c, d]"
    "step_id a = js ''1''" "step_id b = js ''2''" "step_id c = js ''3''" "step_id d = js ''4''"
    by (rule four_steps)
  have 1: "map status (steps (run one_run w)) = [Completed, Completed, Completed, Completed]"
    unfolding fin using s by simp
  have 2: "\<not> isProcessing (run one_run w)" "suspended (run one_run w) = []"
    "pending (run one_run w) = []"
    unfolding fin using i by simp_all
  have 3: "completed_ids (log (w # run_trace one_run w)) = [js ''1'', js ''2'', js ''3'', js ''4'']"
    unfolding lg by (simp add: completed_ids_def)
  have 4: "last (butlast (log (w # run_trace one_run w))) =
           StepChanged (js ''4'') (js ''Deploy to Edge'') Active Completed"
    unfolding lg by (simp add: butlast_append)
  have 5: "last (log (w # run_trace one_run w)) =
           EntryAppended \<lparr> msg_id = toString (clock w (reads w + 10)), role = Agent,
                           content = js ''Deployment successful! Application is live.'',
                           timestamp = clock w (reads w + 11), msg_type = Some Text \<rparr>"
    unfolding lg by simp
  have 6: "last (messages (run one_run w)) =
           \<lparr> msg_id = toString (clock w (reads w + 10)), role = Agent,
             content = js ''Deployment successful! Application is live.'',
             timestamp = clock w (reads w + 11), msg_type = Some Text \<rparr>"
    unfolding fin by simp
  have 7: "completed_ids (log (w # event_trace one_run w)) = [js ''1'', js ''2'', js ''3'', js ''4'']"
    unfolding cl using s by (simp add: completed_ids_def js_ids)
  have 8: "last (log (w # event_trace one_run w)) =
           EntryAppended \<lparr> msg_id = toString (clock w (reads w + 10)), role = Agent,
                           content = js ''Deployment successful! Application is live.'',
                           timestamp = clock w (reads w + 11), msg_type = Some Text \<rparr>"
    unfolding cl by simp
  from 1 2 3 4 5 6 7 8 show ?thesis by blast
qed

theorem run_completes_witness:
  "reachable (todo_idle demo_clock) \<and> idle (todo_idle demo_clock) \<and>
   list_ex (\<lambda>c. \<not> isWhiteSpace c) (input (todo_idle demo_clock)) \<and>
   map status (steps (run one_run (todo_idle demo_clock))) =
     [Completed, Completed, Completed, Completed] \<and>
   completed_ids (log (todo_idle demo_clock # run_trace one_run (todo_idle demo_clock))) =
     [js ''1'', js ''2'', js ''3'', js ''4''] \<and>
   role (last (messages (run one_run (todo_idle demo_clock)))) = Agent"
proof -
  note f = todo_idle_facts [of demo_clock]
  have nb: "\<exists>c\<in>set (input (todo_idle demo_clock)). \<not> isWhiteSpace c"
    using f(3) by (simp add: trim_Nil_iff)
  note t = run_completes [OF f(1) f(2) nb]
  have a: "map status (steps (run one_run (todo_idle demo_clock))) =
     [Completed, Completed, Completed, Completed]" using t by blast
  have b: "completed_ids (log (todo_idle demo_clock # run_trace one_run (todo_idle demo_clock))) =
     [js ''1'', js ''2'', js ''3'', js ''4'']" using t by blast
  have "last (messages (run one_run (todo_idle demo_clock))) =
           \<lparr> msg_id = toString (clock (todo_idle demo_clock) (reads (todo_idle demo_clock) + 10)),
             role = Agent,
             content = js ''Deployment successful! Application is live.'',
             timestamp = clock (todo_idle demo_clock) (reads (todo_idle demo_clock) + 11),
             msg_type = Some Text \<rparr>" using t by blast
  then have c: "role (last (messages (run one_run (todo_idle demo_clock)))) = Agent" by simp
  have d: "list_ex (\<lambda>c. \<not> isWhiteSpace c) (input (todo_idle demo_clock))"
    using nb by (simp add: list_ex_iff)
  from f(1) f(2) d a b c show ?thesis by (intro conjI)
qed

section \<open>A second call of \<open>handleSend\<close> during a Run\<close>


section \<open>The life of a step\<close>

text \<open>
  C3, as the code has it.  Take a Run that starts from a reachable idle state with a
  request that is not blank and that no other Run overlaps, and look at the steps from
  render to render.  The first render of the Run shows step 1 \<open>active\<close> and steps 2 to 4
  \<open>pending\<close>: the reset of line 88 and the activation of line 91 arrive together.  From
  that render on the status changes of a step are exactly \<open>active\<close> to \<open>completed\<close> for
  step 1 and \<open>pending\<close> to \<open>active\<close>, then \<open>active\<close> to \<open>completed\<close> for steps 2 to 4.
  Counted from the state before the Run there is one more change for every step that
  was not yet in the status of that first render: from its old status to \<open>active\<close> for
  step 1, to \<open>pending\<close> for steps 2 to 4.  When all steps are \<open>pending\<close> before the Run,
  every step goes \<open>pending\<close>, \<open>active\<close>, \<open>completed\<close> and nothing else.
\<close>

theorem step_chain:
  assumes "reachable w" "idle w" "\<exists>c\<in>set (input w). \<not> isWhiteSpace c"
  shows "map status (steps (run [Send, Render] w)) = [Active, Pending, Pending, Pending] \<and>
         (\<forall>k\<in>set step_ids.
            transitions_of k (log (drop 1 (event_trace one_run w))) =
              (if k = js ''1'' then [(Active, Completed)]
               else [(Pending, Active), (Active, Completed)])) \<and>
         (\<forall>k\<in>set step_ids.
            transitions_of k (log (w # event_trace one_run w)) =
              map (\<lambda>s. (s, if k = js ''1'' then Active else Pending))
                (filter (\<lambda>s. s \<noteq> (if k = js ''1'' then Active else Pending)) (status_of k w)) @
              (if k = js ''1'' then [(Active, Completed)]
               else [(Pending, Active), (Active, Completed)])) \<and>
         ((\<forall>s\<in>set (steps w). status s = Pending) \<longrightarrow>
          (\<forall>k\<in>set step_ids.
             transitions_of k (log (w # event_trace one_run w)) =
               [(Pending, Active), (Active, Completed)]))"
proof -
  have nb: "trim (input w) \<noteq> []" using assms(3) by (simp add: trim_Nil_iff)
  note af = commit_after_first [OF assms(1,2) nb]
  note ct = commit_transitions [OF assms(1,2) nb]
  have 2: "\<forall>k\<in>set step_ids.
            transitions_of k (log (drop 1 (event_trace one_run w))) =
              (if k = js ''1'' then [(Active, Completed)]
               else [(Pending, Active), (Active, Completed)])"
    using af(2) by (simp add: step_ids_def js_ids)
  have 3: "\<forall>k\<in>set step_ids.
            transitions_of k (log (w # event_trace one_run w)) =
              map (\<lambda>s. (s, if k = js ''1'' then Active else Pending))
                (filter (\<lambda>s. s \<noteq> (if k = js ''1'' then Active else Pending)) (status_of k w)) @
              (if k = js ''1'' then [(Active, Completed)]
               else [(Pending, Active), (Active, Completed)])"
    using ct by blast
  have 4: "(\<forall>s\<in>set (steps w). status s = Pending) \<longrightarrow>
          (\<forall>k\<in>set step_ids.
             transitions_of k (log (w # event_trace one_run w)) =
               [(Pending, Active), (Active, Completed)])"
  proof (intro impI ballI)
    fix k assume p: "\<forall>s\<in>set (steps w). status s = Pending" and k: "k \<in> set step_ids"
    from assms(1) obtain a b c d where s: "steps w = [a, b, c, d]"
      "step_id a = js ''1''" "step_id b = js ''2''" "step_id c = js ''3''" "step_id d = js ''4''"
      by (rule four_steps)
    from p s have q: "status a = Pending" "status b = Pending" "status c = Pending"
      "status d = Pending" by simp_all
    from k s q show "transitions_of k (log (w # event_trace one_run w)) =
               [(Pending, Active), (Active, Completed)]"
      unfolding ct [OF k] by (auto simp: status_of_def step_ids_def js_ids)
  qed
  from af(1) 2 3 4 show ?thesis by blast
qed

theorem step_chain_witness:
  "reachable todo_again \<and> idle todo_again \<and>
   list_ex (\<lambda>c. \<not> isWhiteSpace c) (input todo_again) \<and>
   js ''1'' \<in> set step_ids \<and> js ''3'' \<in> set step_ids \<and>
   transitions_of (js ''1'') (log (todo_again # event_trace one_run todo_again)) =
     [(Completed, Active), (Active, Completed)] \<and>
   transitions_of (js ''3'') (log (todo_again # event_trace one_run todo_again)) =
     [(Completed, Pending), (Pending, Active), (Active, Completed)] \<and>
   transitions_of (js ''3'') (log (drop 1 (event_trace one_run todo_again))) =
     [(Pending, Active), (Active, Completed)] \<and>
   reachable (todo_idle demo_clock) \<and> idle (todo_idle demo_clock) \<and>
   list_ex (\<lambda>c. \<not> isWhiteSpace c) (input (todo_idle demo_clock)) \<and>
   list_all (\<lambda>s. status s = Pending) (steps (todo_idle demo_clock)) \<and>
   transitions_of (js ''1'')
     (log (todo_idle demo_clock # event_trace one_run (todo_idle demo_clock))) =
     [(Pending, Active), (Active, Completed)]"
proof -
  note f = todo_again_facts and g = todo_idle_facts [of demo_clock]
  have k: "js ''1'' \<in> set step_ids" "js ''3'' \<in> set step_ids" by (simp_all add: step_ids_def)
  have n: "js ''3'' \<noteq> js ''1''" by (simp add: js_ids)
  note t = step_chain [OF f(1) f(2) f(3)]
  have "transitions_of (js ''1'') (log (todo_again # event_trace one_run todo_again)) =
      map (\<lambda>s. (s, Active)) (filter (\<lambda>s. s \<noteq> Active) (status_of (js ''1'') todo_again)) @
      [(Active, Completed)]"
    using t k(1) by auto
  then have a: "transitions_of (js ''1'') (log (todo_again # event_trace one_run todo_again)) =
     [(Completed, Active), (Active, Completed)]" by (simp add: f(5))
  have "transitions_of (js ''3'') (log (todo_again # event_trace one_run todo_again)) =
      map (\<lambda>s. (s, Pending)) (filter (\<lambda>s. s \<noteq> Pending) (status_of (js ''3'') todo_again)) @
      [(Pending, Active), (Active, Completed)]"
    using t k(2) n by auto
  then have b: "transitions_of (js ''3'') (log (todo_again # event_trace one_run todo_again)) =
     [(Completed, Pending), (Pending, Active), (Active, Completed)]" by (simp add: f(6))
  have c: "transitions_of (js ''3'') (log (drop 1 (event_trace one_run todo_again))) =
     [(Pending, Active), (Active, Completed)]"
    using t k(2) n by auto
  have d: "list_ex (\<lambda>c. \<not> isWhiteSpace c) (input todo_again)"
    using f(3) by (simp add: list_ex_iff)
  have gb: "\<exists>c\<in>set (input (todo_idle demo_clock)). \<not> isWhiteSpace c"
    using g(3) by (simp add: trim_Nil_iff)
  have ge: "list_ex (\<lambda>c. \<not> isWhiteSpace c) (input (todo_idle demo_clock))"
    using gb by (simp add: list_ex_iff)
  from g(1) obtain x y z u where "steps (todo_idle demo_clock) = [x, y, z, u]"
    by (rule four_steps)
  with g(8) have p: "\<forall>s\<in>set (steps (todo_idle demo_clock)). status s = Pending" by simp
  then have p': "list_all (\<lambda>s. status s = Pending) (steps (todo_idle demo_clock))"
    by (simp add: list_all_iff)
  have e: "transitions_of (js ''1'')
     (log (todo_idle demo_clock # event_trace one_run (todo_idle demo_clock))) =
     [(Pending, Active), (Active, Completed)]"
    using step_chain [OF g(1) g(2) gb] p k(1) by blast
  from f(1) f(2) d k a b c g(1) g(2) ge p' e show ?thesis by (intro conjI)
qed

text \<open>
  C3 as the claim states it excludes a change from \<open>completed\<close> to \<open>active\<close>.  In the Run
  of a second request, after the Run of the scenario has left all steps \<open>completed\<close>,
  step 1 goes from \<open>completed\<close> to \<open>active\<close> and step 2 from \<open>completed\<close> to \<open>pending\<close>.
\<close>

theorem later_run_goes_back_counterexample:
  "transitions_of (js ''1'') (log (todo_again # event_trace one_run todo_again)) =
     [(Completed, Active), (Active, Completed)] \<and>
   transitions_of (js ''2'') (log (todo_again # event_trace one_run todo_again)) =
     [(Completed, Pending), (Pending, Active), (Active, Completed)]"
proof -
  note f = todo_again_facts
  have nb: "trim (input todo_again) \<noteq> []" using f(3) by (simp add: nonblank)
  have k: "js ''1'' \<in> set step_ids" "js ''2'' \<in> set step_ids" by (simp_all add: step_ids_def)
  from f(1) obtain a b c d where s: "steps todo_again = [a, b, c, d]"
    "step_id a = js ''1''" "step_id b = js ''2''" "step_id c = js ''3''" "step_id d = js ''4''"
    by (rule four_steps)
  with f(4) have st: "status_of (js ''1'') todo_again = [Completed]"
    "status_of (js ''2'') todo_again = [Completed]"
    by (simp_all add: status_of_def js_ids)
  have a: "transitions_of (js ''1'') (log (todo_again # event_trace one_run todo_again)) =
     [(Completed, Active), (Active, Completed)]"
    unfolding commit_transitions [OF f(1) f(2) nb k(1)] by (simp add: st)
  have b: "transitions_of (js ''2'') (log (todo_again # event_trace one_run todo_again)) =
     [(Completed, Pending), (Pending, Active), (Active, Completed)]"
    unfolding commit_transitions [OF f(1) f(2) nb k(2)] by (simp add: st [unfolded js_ids] js_ids)
  from a b show ?thesis by (intro conjI)
qed

section \<open>The scenario of the spec\<close>

text \<open>
  C4. Submitting \<open>build a todo app\<close> from the idle initial state, under any clock: exactly
  four steps enter \<open>completed\<close>, in the order \<open>Analyze Request\<close>, \<open>Generate Architecture\<close>,
  \<open>Write Code\<close>, \<open>Deploy to Edge\<close>, seen from render to render and also in the order in
  which the updates are applied.  For every step, the Entries that appear in a render
  after a state in which the step was active include one of origin \<open>agent\<close>: one Entry of
  the agent for each of steps 1 to 3, and for step 4 the Entry of the system of line 111
  together with the success Entry of the agent of line 114.  The success Entry is the
  last observation and the last message.  The Run appends six Entries, one of the user,
  four of the agent and one of the system, which is at least five.
\<close>

theorem todo_scenario:
  "completed_labels (log (todo_idle clk # event_trace one_run (todo_idle clk))) =
     [js ''Analyze Request'', js ''Generate Architecture'', js ''Write Code'', js ''Deploy to Edge''] \<and>
   completed_labels (log (todo_idle clk # run_trace one_run (todo_idle clk))) =
     [js ''Analyze Request'', js ''Generate Architecture'', js ''Write Code'', js ''Deploy to Edge''] \<and>
   list_all (\<lambda>k. Agent \<in> set (map role
        (entries_while_active k (todo_idle clk # event_trace one_run (todo_idle clk)))))
      [js ''1'', js ''2'', js ''3'', js ''4''] \<and>
   map (\<lambda>k. map role (entries_while_active k (todo_idle clk # event_trace one_run (todo_idle clk))))
       [js ''1'', js ''2'', js ''3'', js ''4''] = [[Agent], [Agent], [Agent], [System, Agent]] \<and>
   last (log (todo_idle clk # event_trace one_run (todo_idle clk))) =
     EntryAppended \<lparr> msg_id = toString (clk 11), role = Agent,
                     content = js ''Deployment successful! Application is live.'',
                     timestamp = clk 12, msg_type = Some Text \<rparr> \<and>
   last (messages (run one_run (todo_idle clk))) =
     \<lparr> msg_id = toString (clk 11), role = Agent,
       content = js ''Deployment successful! Application is live.'',
       timestamp = clk 12, msg_type = Some Text \<rparr> \<and>
   map role (drop (length (messages (todo_idle clk))) (messages (run one_run (todo_idle clk)))) =
     [User, Agent, Agent, Agent, System, Agent] \<and>
   5 \<le> length (drop (length (messages (todo_idle clk))) (messages (run one_run (todo_idle clk))))"
proof -
  note f = todo_idle_facts [of clk]
  note lg = run_log [OF f(1) f(2) f(3)] and fin = run_final [OF f(1) f(2) f(3)]
    and cl = commit_log [OF f(1) f(2) f(3)]
  from f(1) obtain a b c d where s: "steps (todo_idle clk) = [a, b, c, d]"
    "step_id a = js ''1''" "step_id b = js ''2''" "step_id c = js ''3''" "step_id d = js ''4''"
    by (rule four_steps)
  with f(8) have p: "status a = Pending" "status b = Pending" "status c = Pending" "status d = Pending"
    by simp_all
  with s have na: "\<forall>s\<in>set (steps (todo_idle clk)). status s \<noteq> Active" by simp
  note en = commit_entries [OF f(1) f(2) f(3) na]
  have 1: "completed_labels (log (todo_idle clk # event_trace one_run (todo_idle clk))) =
     [js ''Analyze Request'', js ''Generate Architecture'', js ''Write Code'', js ''Deploy to Edge'']"
    unfolding cl by (simp add: completed_labels_def s p js_ids)
  have 2: "completed_labels (log (todo_idle clk # run_trace one_run (todo_idle clk))) =
     [js ''Analyze Request'', js ''Generate Architecture'', js ''Write Code'', js ''Deploy to Edge'']"
    unfolding lg by (simp add: completed_labels_def s p)
  have "map (map role) (map (\<lambda>k. entries_while_active k
          (todo_idle clk # event_trace one_run (todo_idle clk))) step_ids)
       = [[Agent], [Agent], [Agent], [System, Agent]]"
    unfolding en by simp
  then have 4: "map (\<lambda>k. map role (entries_while_active k
          (todo_idle clk # event_trace one_run (todo_idle clk))))
       [js ''1'', js ''2'', js ''3'', js ''4''] = [[Agent], [Agent], [Agent], [System, Agent]]"
    by (simp add: step_ids_def)
  then have 3: "list_all (\<lambda>k. Agent \<in> set (map role
        (entries_while_active k (todo_idle clk # event_trace one_run (todo_idle clk)))))
      [js ''1'', js ''2'', js ''3'', js ''4'']"
    by (simp del: set_map)
  have 5: "last (log (todo_idle clk # event_trace one_run (todo_idle clk))) =
     EntryAppended \<lparr> msg_id = toString (clk 11), role = Agent,
                     content = js ''Deployment successful! Application is live.'',
                     timestamp = clk 12, msg_type = Some Text \<rparr>"
    unfolding cl by (simp add: f)
  have 6: "last (messages (run one_run (todo_idle clk))) =
     \<lparr> msg_id = toString (clk 11), role = Agent,
       content = js ''Deployment successful! Application is live.'',
       timestamp = clk 12, msg_type = Some Text \<rparr>"
    unfolding fin by (simp add: f)
  have 7: "map role (drop (length (messages (todo_idle clk))) (messages (run one_run (todo_idle clk)))) =
     [User, Agent, Agent, Agent, System, Agent]"
    unfolding fin by simp
  have 8: "5 \<le> length (drop (length (messages (todo_idle clk))) (messages (run one_run (todo_idle clk))))"
    unfolding fin by simp
  from 1 2 3 4 5 6 7 8 show ?thesis by (intro conjI)
qed

section \<open>Identifiers of Entries\<close>

text \<open>
  C5 does not hold of the code.  An Entry's id is the clock's millisecond count
  (\<open>Date.now().toString()\<close>, lines 71 and 124), and lines 111 and 114 queue two Entries
  with no \<open>await\<close> between them, which one render builds one after the other.  On a clock
  that does not tick between those two readings, the Run of the scenario ends with a
  timeline whose last two Entries share the id \<open>1700000010504\<close>.
\<close>

theorem ids_collide_in_one_millisecond:
  "map msg_id (messages (run one_run (todo_idle same_ms_clock))) =
     [js ''1'', js ''1700000004000'', js ''1700000005001'', js ''1700000006502'',
      js ''1700000008503'', js ''1700000010504'', js ''1700000010504''] \<and>
   \<not> distinct (map msg_id (messages (run one_run (todo_idle same_ms_clock))))"
proof -
  note f = todo_idle_facts [of same_ms_clock]
  have "map msg_id (messages (run one_run (todo_idle same_ms_clock))) =
     [js ''1'', js ''1700000004000'', js ''1700000005001'', js ''1700000006502'',
      js ''1700000008503'', js ''1700000010504'', js ''1700000010504'']"
    unfolding run_final [OF f(1) f(2) f(3)] by (simp add: f init_def same_ms_values same_ms_strings)
  then show ?thesis by simp
qed

section \<open>The timeline only grows\<close>

text \<open>
  C6. Along the trace of any sequence of events from any state, the messages of every
  state are a prefix of the messages of every later state: what has been appended stays
  where it is, with the same id, role, content, timestamp and type.  The same holds of
  the state after the events, of \<open>handleSend\<close>, of any part of an asynchronous body run
  up to its next \<open>await\<close>, of a render, of the updater of line 78 and of the updater of
  \<open>addMessage\<close>; the updater of \<open>updateStep\<close> leaves the messages as they are.
\<close>

theorem timeline_append_only:
  "sorted_wrt (\<lambda>a b. prefix (messages a) (messages b)) (w # run_trace es w) \<and>
   prefix (messages w) (messages (run es w)) \<and>
   prefix (messages w) (messages (handleSend w)) \<and>
   prefix (messages w) (messages (resume cs w)) \<and>
   prefix (messages w) (messages (render w)) \<and>
   prefix (messages w) (messages (appendMessage m w)) \<and>
   prefix (messages w) (messages (addMessage r c ty w)) \<and>
   messages (updateStep i st w) = messages w"
proof -
  let ?P = "\<lambda>a b. prefix (messages a) (messages b)"
  have t: "transp ?P" by (auto simp: transp_def)
  have s: "sorted_wrt ?P (w # run_trace es w)" for w es
    by (rule run_trace_sorted_wrt [of ?P]) (simp_all add: exec_messages t)
  have r: "prefix (messages w) (messages (run es w))" for w es
  proof (cases "run_trace es w = []")
    case True
    with run_trace_last [of w es] show ?thesis by simp
  next
    case False
    then have "run es w \<in> set (run_trace es w)"
      using run_trace_last [of w es] last_in_set [of "run_trace es w"] by simp
    with s [of w es] show ?thesis by auto
  qed
  have h: "prefix (messages w) (messages (handleSend w))"
    using r [of w "[Send]"] by simp
  have c: "prefix (messages w) (messages (resume cs w))"
    by (simp add: resume_cells)
  have d: "prefix (messages w) (messages (render w))"
    using r [of w "[Render]"] by simp
  show ?thesis using s r h c d by (simp add: setters)
qed

section \<open>The step sequence is fixed\<close>

text \<open>
  C7. When \<open>handleSend\<close> accepts a request (the flag of the render is down, its input not
  blank), it adds five updates to the queue: the user's Entry, the clearing of the
  field, the raising of the flag, the reset of line 88 and the activation of step 1.
  Applied in that order from any state, the first three leave the steps as they were,
  the fourth is the reset, after which every step is \<open>pending\<close>, and only then the first
  step is made \<open>active\<close>.  Along the trace of any sequence of events from any state,
  every state has as many steps as the first, with the same ids and the same labels in
  the same order: only the status of a step ever changes.
\<close>

theorem reset_then_status_only:
  "(\<not> isProcessing w \<and> (\<exists>c\<in>set (input w). \<not> isWhiteSpace c) \<longrightarrow>
      pending (handleSend w) = pending w @ handleSend_updates w \<and>
      handleSend_updates w =
        [Append (userMsg w), SetInput [], SetIsProcessing True, ResetSteps,
         UpdateStep (js ''1'') Active] \<and>
      steps (apply_trace (handleSend_updates w) v ! 0) = steps v \<and>
      steps (apply_trace (handleSend_updates w) v ! 1) = steps v \<and>
      steps (apply_trace (handleSend_updates w) v ! 2) = steps v \<and>
      apply_trace (handleSend_updates w) v ! 3 =
        resetSteps (apply_trace (handleSend_updates w) v ! 2) \<and>
      map status (steps (apply_trace (handleSend_updates w) v ! 3)) =
        map (\<lambda>s. Pending) (steps v) \<and>
      apply_trace (handleSend_updates w) v ! 4 =
        updateStep (js ''1'') Active (apply_trace (handleSend_updates w) v ! 3)) \<and>
   (\<forall>s\<in>set (run_trace es w).
      length (steps s) = length (steps w) \<and>
      map step_id (steps s) = map step_id (steps w) \<and>
      map label (steps s) = map label (steps w))"
proof -
  have a: "\<not> isProcessing w \<and> (\<exists>c\<in>set (input w). \<not> isWhiteSpace c) \<longrightarrow>
      pending (handleSend w) = pending w @ handleSend_updates w \<and>
      handleSend_updates w =
        [Append (userMsg w), SetInput [], SetIsProcessing True, ResetSteps,
         UpdateStep (js ''1'') Active] \<and>
      steps (apply_trace (handleSend_updates w) v ! 0) = steps v \<and>
      steps (apply_trace (handleSend_updates w) v ! 1) = steps v \<and>
      steps (apply_trace (handleSend_updates w) v ! 2) = steps v \<and>
      apply_trace (handleSend_updates w) v ! 3 =
        resetSteps (apply_trace (handleSend_updates w) v ! 2) \<and>
      map status (steps (apply_trace (handleSend_updates w) v ! 3)) =
        map (\<lambda>s. Pending) (steps v) \<and>
      apply_trace (handleSend_updates w) v ! 4 =
        updateStep (js ''1'') Active (apply_trace (handleSend_updates w) v ! 3)"
    by (simp add: nonblank handleSend_updates_def handleSend_def handleSend_body_def
          simulateAgentProcess_def enqueue_def setters comp_def)
  have b: "\<forall>s\<in>set (run_trace es w).
      length (steps s) = length (steps w) \<and>
      map step_id (steps s) = map step_id (steps w) \<and>
      map label (steps s) = map label (steps w)"
  proof
    fix s assume "s \<in> set (run_trace es w)"
    with same_steps_trace [of es w] have e: "map step_id (steps s) = map step_id (steps w)"
      "map label (steps s) = map label (steps w)" by auto
    from e(1) have "length (steps s) = length (steps w)" by (rule map_eq_imp_length_eq)
    with e show "length (steps s) = length (steps w) \<and>
      map step_id (steps s) = map step_id (steps w) \<and>
      map label (steps s) = map label (steps w)" by simp
  qed
  from a b show ?thesis by blast
qed

theorem reset_then_status_only_witness:
  "\<not> isProcessing todo_again \<and> list_ex (\<lambda>c. \<not> isWhiteSpace c) (input todo_again) \<and>
   map status (steps todo_again) = [Completed, Completed, Completed, Completed] \<and>
   steps (apply_trace (handleSend_updates todo_again) todo_again ! 2) = steps todo_again \<and>
   apply_trace (handleSend_updates todo_again) todo_again ! 3 =
     resetSteps (apply_trace (handleSend_updates todo_again) todo_again ! 2) \<and>
   map status (steps (apply_trace (handleSend_updates todo_again) todo_again ! 3)) =
     [Pending, Pending, Pending, Pending] \<and>
   run one_run todo_again \<in> set (run_trace one_run todo_again) \<and>
   map step_id (steps (run one_run todo_again)) = step_ids \<and>
   map label (steps (run one_run todo_again)) = step_labels"
proof -
  note f = todo_again_facts
  from f(2) have ip: "\<not> isProcessing todo_again" by (simp add: idle_def)
  have tr: "trim (input todo_again) \<noteq> []" using f(3) by (simp add: nonblank)
  have ne: "run_trace one_run todo_again \<noteq> []"
    using ip tr by (simp add: one_run_def handleSend_trace_def)
  have m: "run one_run todo_again \<in> set (run_trace one_run todo_again)"
    using run_trace_last [of todo_again one_run] ne last_in_set [OF ne] by simp
  note t = reset_then_status_only [of todo_again todo_again one_run]
  have a: "steps (apply_trace (handleSend_updates todo_again) todo_again ! 2) = steps todo_again"
    "apply_trace (handleSend_updates todo_again) todo_again ! 3 =
     resetSteps (apply_trace (handleSend_updates todo_again) todo_again ! 2)"
    using t ip f(3) by blast+
  have "map status (steps (apply_trace (handleSend_updates todo_again) todo_again ! 3)) =
     map (\<lambda>s. Pending) (steps todo_again)"
    using t ip f(3) by blast
  moreover from f(1) obtain x y z u where "steps todo_again = [x, y, z, u]"
    by (rule four_steps)
  ultimately have b: "map status (steps (apply_trace (handleSend_updates todo_again) todo_again ! 3)) =
     [Pending, Pending, Pending, Pending]" by simp
  have "map step_id (steps (run one_run todo_again)) = map step_id (steps todo_again) \<and>
     map label (steps (run one_run todo_again)) = map label (steps todo_again)"
    using t m by blast
  with reachable_steps [OF f(1)]
  have e: "map step_id (steps (run one_run todo_again)) = step_ids"
    "map label (steps (run one_run todo_again)) = step_labels" by simp_all
  have d: "list_ex (\<lambda>c. \<not> isWhiteSpace c) (input todo_again)"
    using f(3) by (simp add: list_ex_iff)
  from ip d f(4) a b m e show ?thesis by (intro conjI)
qed

section \<open>No cancellation\<close>




section \<open>\<open>updateStep\<close>\<close>

text \<open>
  C9. The updater of \<open>updateStep i st\<close> keeps the number of steps; a step whose id is not
  \<open>i\<close> is left as it is; a step whose id is \<open>i\<close> has its status set to \<open>st\<close> and nothing
  else changed; nothing of the state but the steps is touched.  When no step has the id
  \<open>i\<close> the state is returned unchanged; in the states the program reaches that is the
  case for every \<open>i\<close> other than \<open>'1'\<close>, \<open>'2'\<close>, \<open>'3'\<close>, \<open>'4'\<close>.  \<open>updateStep\<close> is a total
  function: it never fails.
\<close>

theorem updateStep_frame:
  "length (steps (updateStep i st w)) = length (steps w) \<and>
   (\<forall>k<length (steps w). step_id (steps w ! k) \<noteq> i \<longrightarrow>
      steps (updateStep i st w) ! k = steps w ! k) \<and>
   (\<forall>k<length (steps w). step_id (steps w ! k) = i \<longrightarrow>
      steps (updateStep i st w) ! k = (steps w ! k)\<lparr>status := st\<rparr>) \<and>
   updateStep i st w = w\<lparr>steps := steps (updateStep i st w)\<rparr> \<and>
   (i \<notin> step_id ` set (steps w) \<longrightarrow> updateStep i st w = w) \<and>
   (reachable w \<and> i \<notin> set step_ids \<longrightarrow> updateStep i st w = w)"
proof -
  have "reachable w \<and> i \<notin> set step_ids \<longrightarrow> i \<notin> step_id ` set (steps w)"
    using reachable_steps [of w] by (auto simp flip: set_map)
  then show ?thesis
    using updateStep_absent [of i w st] by (auto simp: updateStep_def)
qed

theorem updateStep_frame_witness:
  "steps (updateStep (js ''2'') Active (init demo_clock)) ! 0 = steps (init demo_clock) ! 0 \<and>
   steps (updateStep (js ''2'') Active (init demo_clock)) ! 1 =
     (steps (init demo_clock) ! 1)\<lparr>status := Active\<rparr> \<and>
   reachable (init demo_clock) \<and> js ''9'' \<notin> set step_ids \<and>
   updateStep (js ''9'') Failed (init demo_clock) = init demo_clock"
proof -
  note t = updateStep_frame [of "js ''2''" Active "init demo_clock"]
  have l: "0 < length (steps (init demo_clock))" "1 < length (steps (init demo_clock))"
    by (simp_all add: init_def)
  have i: "step_id (steps (init demo_clock) ! 0) \<noteq> js ''2''"
    "step_id (steps (init demo_clock) ! 1) = js ''2''"
    by (simp_all add: init_def js_ids)
  have a: "steps (updateStep (js ''2'') Active (init demo_clock)) ! 0 = steps (init demo_clock) ! 0"
    using t l(1) i(1) by blast
  have b: "steps (updateStep (js ''2'') Active (init demo_clock)) ! 1 =
     (steps (init demo_clock) ! 1)\<lparr>status := Active\<rparr>"
    using t l(2) i(2) by blast
  have r: "reachable (init demo_clock)" by (rule reachable_init)
  have n: "js ''9'' \<notin> set step_ids" by (simp add: step_ids_def js_def)
  have c: "updateStep (js ''9'') Failed (init demo_clock) = init demo_clock"
    using updateStep_frame [of "js ''9''" Failed "init demo_clock"] r n by blast
  from a b r n c show ?thesis by (intro conjI)
qed

section \<open>Blank input\<close>

text \<open>
  C10. When the input field is empty or holds white space only, \<open>handleSend\<close> returns at
  the guard of line 68: no statement of the body is executed, so no user message is
  appended, no step is reset or changed, and the processing flag keeps its value.
\<close>

theorem handleSend_blank:
  "\<forall>c\<in>set (input w). isWhiteSpace c \<Longrightarrow>
     handleSend w = w \<and> handleSend_trace w = [] \<and> steps (handleSend w) = steps w \<and>
     messages (handleSend w) = messages w \<and> isProcessing (handleSend w) = isProcessing w"
  by (simp add: handleSend_def handleSend_trace_def trim_Nil_iff)

theorem handleSend_blank_witness:
  "list_all isWhiteSpace (input (setInput [0x20, 0x09, 0x3000] (init (\<lambda>n. 0)))) \<and>
   handleSend (setInput [0x20, 0x09, 0x3000] (init (\<lambda>n. 0))) =
     setInput [0x20, 0x09, 0x3000] (init (\<lambda>n. 0)) \<and>
   handleSend (init (\<lambda>n. 0)) = init (\<lambda>n. 0)"
proof -
  have h: "\<forall>c\<in>set (input (setInput [0x20, 0x09, 0x3000] (init (\<lambda>n. 0)))). isWhiteSpace c"
    by (simp add: setInput_def isWhiteSpace_def)
  have e: "\<forall>c\<in>set (input (init (\<lambda>n. 0))). isWhiteSpace c"
    by (simp add: init_def)
  from handleSend_blank [OF h] handleSend_blank [OF e] h show ?thesis
    by (simp add: list_all_iff)
qed

end
